theory Spec2Isabelle
  imports Complex_Main
begin

section \<open>Hourly VM activity analysis (cloudcalculator.py)\<close>

text \<open>
  The script reads a table of VM activity intervals, takes the earliest start and the
  latest end as the analysis window, walks the window in steps of one hour, and for each
  hour collects the hosts with an interval overlapping the hour together with their
  billable cores. The result list is written to a detailed and a summary CSV file.

  The embedding follows \<^verbatim>\<open>analyze_vm_activity\<close>, \<^verbatim>\<open>save_summary_csv\<close> and
  \<^verbatim>\<open>save_detailed_csv\<close> line by line. What pandas and the file system do is kept
  outside: a data frame is the list of its rows, already parsed; \<^verbatim>\<open>pd.read_csv\<close> on
  the input file is a function from the separator tried to the frame it returns, or
  \<open>None\<close> when it raises; a CSV file is the list of rows handed to \<^verbatim>\<open>to_csv\<close>.
\<close>

subsection \<open>Data\<close>

text \<open>
  A timestamp is a pandas \<^verbatim>\<open>Timestamp\<close>, counted in nanoseconds since the epoch;
  \<^verbatim>\<open>timedelta(hours=1)\<close> is \<open>hour_ns\<close>. The columns \<^verbatim>\<open>startTime\<close> and
  \<^verbatim>\<open>endTime\<close> are taken after \<^verbatim>\<open>pd.to_datetime\<close> succeeded, every cell holding a
  time. A frame that lacks one of the four columns, on which line 40 or a later one
  raises, is outside the model.
\<close>

type_synonym timestamp = int

definition hour_ns :: int where
  "hour_ns = 3600000000000"

text \<open>
  A cell of the column \<^verbatim>\<open>hostBillableCores\<close> as \<^verbatim>\<open>pd.read_csv\<close> delivers it: an
  integer (column of dtype int64), or a float (dtype float64) that is finite with a
  rational value, infinite, or NaN (also the value of a missing cell).
\<close>

datatype cores_cell = CoresInt int | CoresFloat rat | CoresInf | CoresNaN

record activity =
  hostName :: string
  startTime :: timestamp
  endTime :: timestamp
  hostBillableCores :: cores_cell

type_synonym dataframe = "activity list"

datatype error = ValueError | OverflowError

text \<open>
  The floats of the accumulator \<^verbatim>\<open>defaultdict(float)\<close>. Each of them starts as
  \<^verbatim>\<open>0.0\<close> and only ever has Python integers added, so a finite one holds an integral
  value: \<open>FloatVal n\<close> is the double of value \<open>n\<close>.
\<close>

datatype py_float = FloatVal int | PosInf | NegInf | NaN

text \<open>A number in a cell of an output row: Python keeps its type, int or float.\<close>

datatype py_num = PyInt int | PyFloat py_float

record hour_result =
  hour :: string
  day_of_month :: int
  hour_of_day :: int
  total_hostnames :: int
  total_hostBillableCores :: int
  hostnames :: "(string \<times> py_float) list"

text \<open>
  An entry of \<open>hostnames\<close> is the pair of \<^verbatim>\<open>'hostname'\<close> and
  \<^verbatim>\<open>'hostBillableCores'\<close>. The rows of the two reports, with the columns of the
  source (the column \<^verbatim>\<open>total_hostBillableCores\<close> of the summary is
  \<open>summary_total_hostBillableCores\<close> here).
\<close>

record detailed_row =
  detailed_hour :: string
  detailed_day_of_month :: int
  detailed_hour_of_day :: int
  detailed_hostname :: string
  detailed_hostBillableCores :: py_num

record summary_row =
  summary_hour :: string
  summary_day_of_month :: int
  summary_hour_of_day :: int
  total_hosts :: py_num
  summary_total_hostBillableCores :: py_num

datatype separator = Tab | Space | Comma

datatype message =
    ErrorReadingFile
  | LoadedRecords nat
  | FoundRecords nat
  | AnalyzingHours nat
  | AnalysisComplete
  | DetailedSaved
  | SummarySaved

datatype csv_file = DetailedCsv "detailed_row list" | SummaryCsv "summary_row list"

text \<open>
  What a call leaves behind: the list returned or the exception raised, the lines
  printed, and the files written, in order.
\<close>

record outcome =
  returned :: "error + hour_result list"
  printed :: "message list"
  written :: "csv_file list"

subsection \<open>Python numbers\<close>

text \<open>
  Conversion of an integer to a double rounds to 53 significant bits, ties to even.
  \<open>excess_bits a\<close> is the number of low bits of \<open>a\<close> beyond the 53 leading ones.
\<close>

function excess_bits :: "int \<Rightarrow> nat" where
  "excess_bits a = (if a < 2 ^ 53 then 0 else Suc (excess_bits (a div 2)))"
  by pat_completeness auto
termination
  by (relation "measure nat") auto

declare excess_bits.simps [simp del]

definition round_double :: "int \<Rightarrow> int" where
  "round_double n =
     (let a = \<bar>n\<bar>;
          e = excess_bits a;
          q = a div 2 ^ e;
          r = a mod 2 ^ e;
          m = (if 2 * r > 2 ^ e \<or> (2 * r = 2 ^ e \<and> odd q) then q + 1 else q)
      in sgn n * (m * 2 ^ e))"

text \<open>The doubles end below \<open>float_limit\<close>: a value that rounds to it or beyond is out of range.\<close>

definition float_limit :: int where
  "float_limit = 2 ^ 1024"

text \<open>\<^verbatim>\<open>float(n)\<close>, as the addition of an int to a float performs it.\<close>

definition py_float_of_int :: "int \<Rightarrow> error + py_float" where
  "py_float_of_int n =
     (let m = round_double n
      in if \<bar>m\<bar> < float_limit then Inr (FloatVal m) else Inl OverflowError)"

text \<open>Addition of two doubles: the exact sum, rounded; beyond the range, an infinity.\<close>

fun float_add :: "py_float \<Rightarrow> py_float \<Rightarrow> py_float" where
  "float_add (FloatVal a) (FloatVal b) =
     (let m = round_double (a + b)
      in if float_limit \<le> m then PosInf
         else if m \<le> - float_limit then NegInf
         else FloatVal m)"
| "float_add NaN y = NaN"
| "float_add x NaN = NaN"
| "float_add PosInf NegInf = NaN"
| "float_add NegInf PosInf = NaN"
| "float_add PosInf y = PosInf"
| "float_add x PosInf = PosInf"
| "float_add NegInf y = NegInf"
| "float_add x NegInf = NegInf"

text \<open>\<^verbatim>\<open>x + n\<close> for a float \<open>x\<close> and an int \<open>n\<close>: \<open>n\<close> is converted first.\<close>

definition float_add_int :: "py_float \<Rightarrow> int \<Rightarrow> error + py_float" where
  "float_add_int x n =
     (case py_float_of_int n of Inl e \<Rightarrow> Inl e | Inr y \<Rightarrow> Inr (float_add x y))"

text \<open>\<^verbatim>\<open>int(...)\<close> of a cell of the input: a float is truncated toward zero.\<close>

fun py_int :: "cores_cell \<Rightarrow> error + int" where
  "py_int (CoresInt n) = Inr n"
| "py_int (CoresFloat x) = Inr (if 0 \<le> x then \<lfloor>x\<rfloor> else \<lceil>x\<rceil>)"
| "py_int CoresInf = Inl OverflowError"
| "py_int CoresNaN = Inl ValueError"

text \<open>\<^verbatim>\<open>int(...)\<close> of a float of the accumulator.\<close>

fun py_int_of_float :: "py_float \<Rightarrow> error + int" where
  "py_int_of_float (FloatVal n) = Inr n"
| "py_int_of_float PosInf = Inl OverflowError"
| "py_int_of_float NegInf = Inl OverflowError"
| "py_int_of_float NaN = Inl ValueError"

text \<open>
  \<^verbatim>\<open>sum(values)\<close>: from \<open>0\<close>, left to right, each partial sum rounded to a double.
  (Where a partial sum is not a double, later interpreters compensate the rounding
  error; the totals agree whenever every partial sum is a double.)
\<close>

definition py_sum :: "py_float list \<Rightarrow> py_float" where
  "py_sum vs = foldl float_add (FloatVal 0) vs"

subsection \<open>Reading the dataset\<close>

text \<open>
  Lines 24 to 35. \<open>read_csv sep\<close> is \<^verbatim>\<open>pd.read_csv\<close> on the input file with the
  separator \<open>sep\<close>: the frame, or \<open>None\<close> when it raises.
\<close>

definition read_dataset :: "(separator \<Rightarrow> dataframe option) \<Rightarrow> dataframe option" where
  "read_dataset read_csv =
     (case read_csv Tab of
        Some df \<Rightarrow> Some df
      | None \<Rightarrow>
          (case read_csv Space of
             Some df \<Rightarrow> Some df
           | None \<Rightarrow> read_csv Comma))"

subsection \<open>The window and its hours\<close>

text \<open>
  \<^verbatim>\<open>Series.min()\<close> and \<^verbatim>\<open>Series.max()\<close>; on an empty column they return
  \<^verbatim>\<open>NaT\<close>, here \<open>None\<close>.
\<close>

definition series_min :: "timestamp list \<Rightarrow> timestamp option" where
  "series_min xs = (case xs of [] \<Rightarrow> None | x # rest \<Rightarrow> Some (fold min rest x))"

definition series_max :: "timestamp list \<Rightarrow> timestamp option" where
  "series_max xs = (case xs of [] \<Rightarrow> None | x # rest \<Rightarrow> Some (fold max rest x))"

definition month_start :: "dataframe \<Rightarrow> timestamp option" where
  "month_start df = series_min (map startTime df)"

definition month_end :: "dataframe \<Rightarrow> timestamp option" where
  "month_end df = series_max (map endTime df)"

text \<open>The loop of lines 50 to 53, from a given \<^verbatim>\<open>current_hour\<close>.\<close>

function hours_from :: "timestamp \<Rightarrow> timestamp \<Rightarrow> timestamp list" where
  "hours_from current_hour m_end =
     (if current_hour < m_end
      then current_hour # hours_from (current_hour + hour_ns) m_end
      else [])"
  by pat_completeness auto
termination
  by (relation "measure (\<lambda>(c, e). nat (e - c))") (auto simp: hour_ns_def)

declare hours_from.simps [simp del]

text \<open>Any comparison with \<^verbatim>\<open>NaT\<close> is false, so the loop does not run on it.\<close>

definition month_hours :: "timestamp option \<Rightarrow> timestamp option \<Rightarrow> timestamp list" where
  "month_hours m_start m_end =
     (case m_start of
        None \<Rightarrow> []
      | Some s \<Rightarrow> (case m_end of None \<Rightarrow> [] | Some e \<Rightarrow> hours_from s e))"

subsection \<open>Rendering an hour\<close>

text \<open>
  What pandas makes of \<^verbatim>\<open>hour_start\<close> in lines 82 to 84, for a timestamp without
  time zone (or in UTC) and within the years 1000 to 9999, which include all the years
  a pandas timestamp can hold. \<open>civil_from_days\<close> turns a number of days since
  1970-01-01 into year, month and day of the Gregorian calendar, counting the days in
  eras of 400 years that start on the first of March.
\<close>

definition civil_from_days :: "int \<Rightarrow> int \<times> int \<times> int" where
  "civil_from_days days =
     (let z = days + 719468;
          era = z div 146097;
          doe = z - era * 146097;
          yoe = (doe - doe div 1460 + doe div 36524 - doe div 146096) div 365;
          doy = doe - (365 * yoe + yoe div 4 - yoe div 100);
          mp = (5 * doy + 2) div 153;
          d = doy - (153 * mp + 2) div 5 + 1;
          m = (if mp < 10 then mp + 3 else mp - 9);
          y = yoe + era * 400 + (if m \<le> 2 then 1 else 0)
      in (y, m, d))"

text \<open>\<^verbatim>\<open>hour_start.day\<close> and \<^verbatim>\<open>hour_start.hour\<close>.\<close>

definition timestamp_day :: "timestamp \<Rightarrow> int" where
  "timestamp_day t = snd (snd (civil_from_days (t div (24 * hour_ns))))"

definition timestamp_hour :: "timestamp \<Rightarrow> int" where
  "timestamp_hour t = (t div hour_ns) mod 24"

text \<open>Decimal digits, padded with zeros to a given width.\<close>

definition digit_char :: "int \<Rightarrow> char" where
  "digit_char d = ''0123456789'' ! nat (d mod 10)"

fun zero_pad :: "nat \<Rightarrow> int \<Rightarrow> string" where
  "zero_pad 0 n = []"
| "zero_pad (Suc w) n = zero_pad w (n div 10) @ [digit_char n]"

text \<open>\<^verbatim>\<open>hour_start.strftime('%Y-%m-%d %H:00:00 UTC')\<close>.\<close>

definition timestamp_strftime :: "timestamp \<Rightarrow> string" where
  "timestamp_strftime t =
     (case civil_from_days (t div (24 * hour_ns)) of
        (y, m, d) \<Rightarrow>
          zero_pad 4 y @ ''-'' @ zero_pad 2 m @ ''-'' @ zero_pad 2 d @ '' ''
            @ zero_pad 2 (timestamp_hour t) @ '':00:00 UTC'')"

subsection \<open>One hour\<close>

text \<open>Lines 62 to 68: the rows of the frame that overlap the hour, in the frame's order.\<close>

definition active_records :: "dataframe \<Rightarrow> timestamp \<Rightarrow> dataframe" where
  "active_records df hour_start =
     (let hour_end = hour_start + hour_ns
      in filter (\<lambda>row. startTime row < hour_end \<and> endTime row > hour_start) df)"

text \<open>
  \<^verbatim>\<open>drop_duplicates(subset=['hostName'])\<close> keeps, for each host name, the first row
  that has it. \<open>seen\<close> are the host names of the rows passed so far.
\<close>

fun drop_duplicates_from :: "string list \<Rightarrow> dataframe \<Rightarrow> dataframe" where
  "drop_duplicates_from seen [] = []"
| "drop_duplicates_from seen (row # rest) =
     (if hostName row \<in> set seen then drop_duplicates_from seen rest
      else row # drop_duplicates_from (hostName row # seen) rest)"

definition drop_duplicates :: "dataframe \<Rightarrow> dataframe" where
  "drop_duplicates df = drop_duplicates_from [] df"

text \<open>
  The dictionary \<^verbatim>\<open>activehosts\<close>, in insertion order. Storing under a key that is
  present keeps the key's place; a new key goes to the end.
\<close>

type_synonym activehosts = "(string \<times> py_float) list"

fun dict_set :: "activehosts \<Rightarrow> string \<Rightarrow> py_float \<Rightarrow> activehosts" where
  "dict_set [] k v = [(k, v)]"
| "dict_set ((k', v') # kvs) k v =
     (if k' = k then (k, v) # kvs else (k', v') # dict_set kvs k v)"

text \<open>
  Line 78, \<^verbatim>\<open>activehosts[hostname] += hostBillableCores\<close>: a missing key reads as
  \<^verbatim>\<open>0.0\<close>.
\<close>

definition add_cores :: "activehosts \<Rightarrow> string \<Rightarrow> int \<Rightarrow> error + activehosts" where
  "add_cores d k c =
     (let old = (case map_of d k of None \<Rightarrow> FloatVal 0 | Some v \<Rightarrow> v)
      in case float_add_int old c of
           Inl e \<Rightarrow> Inl e
         | Inr v \<Rightarrow> Inr (dict_set d k v))"

text \<open>The loop of lines 75 to 78.\<close>

fun group_by_hostname :: "activehosts \<Rightarrow> dataframe \<Rightarrow> error + activehosts" where
  "group_by_hostname d [] = Inr d"
| "group_by_hostname d (row # rest) =
     (case py_int (hostBillableCores row) of
        Inl e \<Rightarrow> Inl e
      | Inr c \<Rightarrow>
          (case add_cores d (hostName row) c of
             Inl e \<Rightarrow> Inl e
           | Inr d' \<Rightarrow> group_by_hostname d' rest))"

text \<open>The body of the loop over the hours, lines 62 to 96.\<close>

definition hour_entry :: "dataframe \<Rightarrow> timestamp \<Rightarrow> error + hour_result" where
  "hour_entry df hour_start =
     (case group_by_hostname [] (drop_duplicates (active_records df hour_start)) of
        Inl e \<Rightarrow> Inl e
      | Inr d \<Rightarrow>
          (case py_int_of_float (py_sum (map snd d)) of
             Inl e \<Rightarrow> Inl e
           | Inr total_cores \<Rightarrow>
               Inr \<lparr>hour = timestamp_strftime hour_start,
                    day_of_month = timestamp_day hour_start,
                    hour_of_day = timestamp_hour hour_start,
                    total_hostnames = int (length d),
                    total_hostBillableCores = total_cores,
                    hostnames = d\<rparr>))"

text \<open>The loop of line 61; an exception in one hour ends it.\<close>

fun analyze_hours :: "dataframe \<Rightarrow> timestamp list \<Rightarrow> error + hour_result list" where
  "analyze_hours df [] = Inr []"
| "analyze_hours df (hour_start # rest) =
     (case hour_entry df hour_start of
        Inl e \<Rightarrow> Inl e
      | Inr hour_result \<Rightarrow>
          (case analyze_hours df rest of
             Inl e \<Rightarrow> Inl e
           | Inr results \<Rightarrow> Inr (hour_result # results)))"

subsection \<open>The reports\<close>

definition save_summary_csv :: "hour_result list \<Rightarrow> summary_row list" where
  "save_summary_csv results =
     map (\<lambda>hour_data.
            \<lparr>summary_hour = hour hour_data,
             summary_day_of_month = day_of_month hour_data,
             summary_hour_of_day = hour_of_day hour_data,
             total_hosts = PyInt (total_hostnames hour_data),
             summary_total_hostBillableCores = PyInt (total_hostBillableCores hour_data)\<rparr>)
         results"

definition save_detailed_csv :: "hour_result list \<Rightarrow> detailed_row list" where
  "save_detailed_csv results =
     concat (map (\<lambda>hour_data.
                    map (\<lambda>hostname_data.
                           \<lparr>detailed_hour = hour hour_data,
                            detailed_day_of_month = day_of_month hour_data,
                            detailed_hour_of_day = hour_of_day hour_data,
                            detailed_hostname = fst hostname_data,
                            detailed_hostBillableCores = PyFloat (snd hostname_data)\<rparr>)
                        (hostnames hour_data))
                 results)"

subsection \<open>The whole run\<close>

definition analyze_vm_activity :: "(separator \<Rightarrow> dataframe option) \<Rightarrow> outcome" where
  "analyze_vm_activity read_csv =
     (case read_dataset read_csv of
        None \<Rightarrow> \<lparr>returned = Inr [], printed = [ErrorReadingFile], written = []\<rparr>
      | Some df \<Rightarrow>
          (let hours = month_hours (month_start df) (month_end df);
               progress = [LoadedRecords (length df), FoundRecords (length df),
                           AnalyzingHours (length hours)]
           in case analyze_hours df hours of
                Inl e \<Rightarrow> \<lparr>returned = Inl e, printed = progress, written = []\<rparr>
              | Inr results \<Rightarrow>
                  \<lparr>returned = Inr results,
                   printed = progress @ [AnalysisComplete, DetailedSaved, SummarySaved],
                   written = [DetailedCsv (save_detailed_csv results),
                              SummaryCsv (save_summary_csv results)]\<rparr>))"

section \<open>Properties\<close>

subsection \<open>The window and its hours\<close>

lemma hour_ns_pos: "0 < hour_ns"
  by (simp add: hour_ns_def)

lemma series_min_eq: "xs \<noteq> [] \<Longrightarrow> series_min xs = Some (Min (set xs))"
proof (cases xs)
  case (Cons x rest)
  then show ?thesis
    using Min.set_eq_fold [of x rest] by (simp add: series_min_def)
qed simp

lemma series_max_eq: "xs \<noteq> [] \<Longrightarrow> series_max xs = Some (Max (set xs))"
proof (cases xs)
  case (Cons x rest)
  then show ?thesis
    using Max.set_eq_fold [of x rest] by (simp add: series_max_def)
qed simp

lemma month_start_eq: "df \<noteq> [] \<Longrightarrow> month_start df = Some (Min (startTime ` set df))"
  by (simp add: month_start_def series_min_eq)

lemma month_end_eq: "df \<noteq> [] \<Longrightarrow> month_end df = Some (Max (endTime ` set df))"
  by (simp add: month_end_def series_max_eq)

lemma hour_count_stop: "\<not> s < e \<Longrightarrow> nat (- ((s - e) div hour_ns)) = 0"
proof -
  assume "\<not> s < e"
  then have "0 \<le> (s - e) div hour_ns"
    using hour_ns_pos by (simp add: pos_imp_zdiv_nonneg_iff)
  then show ?thesis by simp
qed

lemma hour_count_step:
  "s < e \<Longrightarrow> nat (- ((s - e) div hour_ns)) = Suc (nat (- ((s + hour_ns - e) div hour_ns)))"
proof -
  assume lt: "s < e"
  have "(s + hour_ns - e) div hour_ns = (s - e) div hour_ns + 1"
    using hour_ns_pos by (simp add: add.commute add_diff_eq [symmetric] div_add_self2)
  moreover have "(s - e) div hour_ns < 0"
    using lt hour_ns_pos by (simp add: neg_imp_zdiv_neg_iff div_neg_pos_less0)
  ultimately show ?thesis
    by (simp add: nat_diff_distrib' Suc_nat_eq_nat_zadd1)
qed

lemma hours_from_eq:
  "hours_from s e = map (\<lambda>k. s + int k * hour_ns) [0..<nat (- ((s - e) div hour_ns))]"
proof (induction s e rule: hours_from.induct)
  case (1 s e)
  show ?case
  proof (cases "s < e")
    case True
    have "hours_from s e = s # hours_from (s + hour_ns) e"
      using True by (simp add: hours_from.simps [of s e])
    also have "\<dots> = s # map (\<lambda>k. s + hour_ns + int k * hour_ns) [0..<nat (- ((s + hour_ns - e) div hour_ns))]"
      using 1 True by simp
    also have "\<dots> = map (\<lambda>k. s + int k * hour_ns) [0..<Suc (nat (- ((s + hour_ns - e) div hour_ns)))]"
      by (simp add: upt_conv_Cons map_Suc_upt [symmetric] algebra_simps del: upt_Suc)
    finally show ?thesis
      using True by (simp add: hour_count_step)
  next
    case False
    then show ?thesis
      by (simp add: hours_from.simps [of s e] hour_count_stop)
  qed
qed

lemma hours_from_nth:
  "k < length (hours_from s e) \<Longrightarrow> hours_from s e ! k = s + int k * hour_ns"
  by (simp add: hours_from_eq)

lemma hours_from_bounds: "h \<in> set (hours_from s e) \<Longrightarrow> s \<le> h \<and> h < e"
proof (induction s e rule: hours_from.induct)
  case (1 s e)
  show ?case
  proof (cases "s < e")
    case True
    then have "h = s \<or> h \<in> set (hours_from (s + hour_ns) e)"
      using "1.prems" by (simp add: hours_from.simps [of s e])
    then show ?thesis
      using True "1.IH" hour_ns_pos by auto
  next
    case False
    then show ?thesis
      using "1.prems" by (simp add: hours_from.simps [of s e])
  qed
qed

text \<open>
  Claim C3. For a frame with at least one row, the window starts at the least start
  time and ends at the greatest end time of the rows, and every hour produced starts
  inside the window, at or after its start and strictly before its end.
\<close>

theorem window_bounds:
  assumes "df \<noteq> []"
  shows "month_start df = Some (Min (startTime ` set df))
    \<and> month_end df = Some (Max (endTime ` set df))
    \<and> (\<forall>h \<in> set (month_hours (month_start df) (month_end df)).
          Min (startTime ` set df) \<le> h \<and> h < Max (endTime ` set df))"
  using assms by (auto simp: month_start_eq month_end_eq month_hours_def dest: hours_from_bounds)

theorem window_bounds_witness:
  "(let df = [\<lparr>hostName = ''h1'', startTime = 1800000000000, endTime = 8100000000000,
                  hostBillableCores = CoresInt 4\<rparr>,
               \<lparr>hostName = ''h2'', startTime = 3600000000000, endTime = 5400000000000,
                  hostBillableCores = CoresInt 2\<rparr>]
    in df \<noteq> []
       \<and> month_start df = Some 1800000000000
       \<and> month_end df = Some 8100000000000
       \<and> list_all (\<lambda>h. 1800000000000 \<le> h \<and> h < 8100000000000)
            (month_hours (month_start df) (month_end df)))"
  using window_bounds
    [of "[\<lparr>hostName = ''h1'', startTime = 1800000000000, endTime = 8100000000000,
           hostBillableCores = CoresInt 4\<rparr>,
          \<lparr>hostName = ''h2'', startTime = 3600000000000, endTime = 5400000000000,
           hostBillableCores = CoresInt 2\<rparr>]"]
  by (simp add: list_all_iff)

lemma hour_count_ceiling:
  "nat (- ((s - e) div hour_ns)) = nat \<lceil>real_of_int (e - s) / real_of_int hour_ns\<rceil>"
proof -
  have "\<lceil>real_of_int (e - s) / real_of_int hour_ns\<rceil> = - (- (e - s) div hour_ns)"
    by (rule ceiling_divide_eq_div)
  then show ?thesis
    by simp
qed

lemma trailing_hour:
  assumes "s < e" and "\<not> hour_ns dvd e - s"
  shows "\<exists>h \<in> set (hours_from s e). h < e \<and> e < h + hour_ns"
proof -
  define q where "q = (s - e) div hour_ns"
  define r where "r = (s - e) mod hour_ns"
  define n where "n = - q"
  have split: "s - e = hour_ns * q + r"
    by (simp add: q_def r_def)
  have "\<not> hour_ns dvd s - e"
    using assms(2) dvd_minus_iff [of hour_ns "e - s"] by simp
  then have "r \<noteq> 0"
    by (simp add: r_def dvd_eq_mod_eq_0)
  moreover have "0 \<le> r" and "r < hour_ns"
    using hour_ns_pos by (simp_all add: r_def)
  ultimately have bounds: "e - s < n * hour_ns" "n * hour_ns - hour_ns < e - s"
    using split by (simp_all add: n_def algebra_simps)
  have "0 < n"
    using bounds(1) assms(1) hour_ns_pos
    by (metis diff_gt_0_iff_gt less_trans zero_less_mult_pos2)
  define k where "k = nat n - 1"
  have k: "k < nat n" "int k = n - 1"
    using \<open>0 < n\<close> by (simp_all add: k_def)
  have "hours_from s e = map (\<lambda>k. s + int k * hour_ns) [0..<nat n]"
    by (simp add: hours_from_eq n_def q_def)
  then have "s + int k * hour_ns \<in> set (hours_from s e)"
    using k(1) by auto
  moreover have "s + int k * hour_ns < e" "e < s + int k * hour_ns + hour_ns"
    using bounds unfolding k(2) by (simp_all add: algebra_simps)
  ultimately show ?thesis
    by blast
qed

text \<open>
  Claim C2, as the code has it. For a frame with at least one row, the hours start at the
  start of the window and advance by exactly one hour while the start of the hour lies
  strictly before the end of the window. Their number is therefore the length of the
  window in hours rounded up (and zero when the window is empty or reversed): when the
  length is not a whole number of hours, the trailing fraction of an hour gets an hour of
  its own, which starts before the end of the window and ends after it.
\<close>

theorem month_hours_count:
  assumes "df \<noteq> []"
  shows "\<exists>s e. month_start df = Some s \<and> month_end df = Some e
    \<and> month_hours (month_start df) (month_end df)
        = map (\<lambda>k. s + int k * hour_ns)
            [0..<nat \<lceil>real_of_int (e - s) / real_of_int hour_ns\<rceil>]
    \<and> (s < e \<and> \<not> hour_ns dvd e - s \<longrightarrow>
         (\<exists>h \<in> set (month_hours (month_start df) (month_end df)). h < e \<and> e < h + hour_ns))"
proof -
  obtain s e where se: "month_start df = Some s" "month_end df = Some e"
    using assms by (simp add: month_start_eq month_end_eq)
  have "month_hours (Some s) (Some e) = hours_from s e"
    by (simp add: month_hours_def)
  then show ?thesis
    using se trailing_hour [of s e] hours_from_eq [of s e] hour_count_ceiling [of s e]
    by auto
qed

theorem month_hours_count_witness:
  "(let df = [\<lparr>hostName = ''h1'', startTime = 1704069000000000000,
                  endTime = 1704075300000000000, hostBillableCores = CoresInt 4\<rparr>,
               \<lparr>hostName = ''h2'', startTime = 1704070800000000000,
                  endTime = 1704072600000000000, hostBillableCores = CoresInt 2\<rparr>]
    in df \<noteq> []
       \<and> month_start df = Some 1704069000000000000
       \<and> month_end df = Some 1704075300000000000
       \<and> \<lceil>real_of_int (1704075300000000000 - 1704069000000000000) / real_of_int hour_ns\<rceil> = 2
       \<and> month_hours (month_start df) (month_end df)
           = [1704069000000000000, 1704072600000000000]
       \<and> 1704072600000000000 < (1704075300000000000 :: int)
       \<and> (1704075300000000000 :: int) < 1704072600000000000 + hour_ns)"
proof -
  have c: "\<lceil>real_of_int (1704075300000000000 - 1704069000000000000) / real_of_int hour_ns\<rceil> = 2"
    by (simp add: hour_ns_def ceiling_divide_eq_div del: of_int_diff)
  show ?thesis
    using month_hours_count
      [of "[\<lparr>hostName = ''h1'', startTime = 1704069000000000000,
             endTime = 1704075300000000000, hostBillableCores = CoresInt 4\<rparr>,
            \<lparr>hostName = ''h2'', startTime = 1704070800000000000,
             endTime = 1704072600000000000, hostBillableCores = CoresInt 2\<rparr>]"]
    by (simp add: c month_start_def month_end_def series_min_def series_max_def
        upt_conv_Cons hour_ns_def)
qed

text \<open>
  The claim as stated, with the number of hours rounded down and no hour for the
  trailing fraction, fails on the two rows of the specification's own scenario: the
  window from 00:30 to 02:15 is one hour and three quarters long and has the two hours
  starting at 00:30 and at 01:30.
\<close>

theorem month_hours_floor_counterexample:
  "(let df = [\<lparr>hostName = ''h1'', startTime = 1704069000000000000,
                  endTime = 1704075300000000000, hostBillableCores = CoresInt 4\<rparr>,
               \<lparr>hostName = ''h2'', startTime = 1704070800000000000,
                  endTime = 1704072600000000000, hostBillableCores = CoresInt 2\<rparr>]
    in month_start df = Some 1704069000000000000
       \<and> month_end df = Some 1704075300000000000
       \<and> \<lfloor>real_of_int (1704075300000000000 - 1704069000000000000) / real_of_int hour_ns\<rfloor> = 1
       \<and> month_hours (month_start df) (month_end df)
           = [1704069000000000000, 1704072600000000000]
       \<and> length (month_hours (month_start df) (month_end df))
           \<noteq> nat \<lfloor>real_of_int (1704075300000000000 - 1704069000000000000)
                  / real_of_int hour_ns\<rfloor>)"
proof -
  have c: "\<lfloor>real_of_int (1704075300000000000 - 1704069000000000000) / real_of_int hour_ns\<rfloor> = 1"
    by (simp add: hour_ns_def floor_divide_of_int_eq del: of_int_diff)
  show ?thesis
    by (simp add: c month_start_def month_end_def series_min_def series_max_def
        month_hours_def hours_from.simps hour_ns_def)
qed


subsection \<open>Selection of the active rows\<close>

text \<open>
  Claim C1. For every hour and every row, the row is selected as active in the hour
  exactly when it is a row of the frame whose start lies before the end of the hour and
  whose end lies after the start of the hour. In particular a row that ends at the very
  start of the hour, or starts at its very end, is not selected.
\<close>

theorem active_records_overlap:
  "(row \<in> set (active_records df hour_start) \<longleftrightarrow>
      row \<in> set df \<and> startTime row < hour_start + hour_ns \<and> endTime row > hour_start)
   \<and> (endTime row = hour_start \<longrightarrow> row \<notin> set (active_records df hour_start))
   \<and> (startTime row = hour_start + hour_ns \<longrightarrow> row \<notin> set (active_records df hour_start))"
  by (auto simp: active_records_def)

text \<open>
  The interval from 10:00 to 11:00 is active in the hour from 10:00, and neither in the
  hour from 09:00 nor in the hour from 11:00.
\<close>

theorem active_records_overlap_witness:
  "(let row = \<lparr>hostName = ''h1'', startTime = 36000000000000, endTime = 39600000000000,
                  hostBillableCores = CoresInt 4\<rparr>
    in row \<in> set (active_records [row] 36000000000000)
       \<and> row \<notin> set (active_records [row] 32400000000000)
       \<and> row \<notin> set (active_records [row] 39600000000000))"
  using active_records_overlap
    [of "\<lparr>hostName = ''h1'', startTime = 36000000000000, endTime = 39600000000000,
          hostBillableCores = CoresInt 4\<rparr>"
        "[\<lparr>hostName = ''h1'', startTime = 36000000000000, endTime = 39600000000000,
           hostBillableCores = CoresInt 4\<rparr>]"]
  by (simp add: hour_ns_def)

text \<open>
  Claim C10. The hours in which a row is active are consecutive: a row active in the
  hours number \<open>i\<close> and \<open>j\<close> of the run is active in every hour between the two. (This
  holds for every row; that its start precedes its end is not needed.)
\<close>

theorem active_hours_contiguous:
  assumes "i < k" and "k < j" and "j < length (month_hours m_start m_end)"
    and "row \<in> set (active_records df (month_hours m_start m_end ! i))"
    and "row \<in> set (active_records df (month_hours m_start m_end ! j))"
  shows "row \<in> set (active_records df (month_hours m_start m_end ! k))"
proof -
  obtain s e where hs: "month_hours m_start m_end = hours_from s e"
    using assms(3) by (auto simp: month_hours_def split: option.splits)
  have nth: "hours_from s e ! n = s + int n * hour_ns" if "n \<le> j" for n
    using that assms(3) hs by (simp add: hours_from_nth)
  have ik: "int i * hour_ns + hour_ns \<le> int k * hour_ns"
    using assms(1) hour_ns_pos mult_right_mono [of "int i + 1" "int k" hour_ns]
    by (simp add: algebra_simps)
  have kj: "int k * hour_ns \<le> int j * hour_ns"
    using assms(2) hour_ns_pos mult_right_mono [of "int k" "int j" hour_ns] by simp
  have "row \<in> set df" and "startTime row < s + int i * hour_ns + hour_ns"
    and "s + int j * hour_ns < endTime row"
    using assms(4,5) hs nth [of i] nth [of j] assms(1,2)
    by (simp_all add: active_records_def)
  then have "row \<in> set df \<and> startTime row < s + int k * hour_ns + hour_ns
      \<and> s + int k * hour_ns < endTime row"
    using ik kj hour_ns_pos by linarith
  then show ?thesis
    using hs nth [of k] assms(2) by (simp add: active_records_def)
qed

theorem active_hours_contiguous_witness:
  "(let row = \<lparr>hostName = ''h1'', startTime = 0, endTime = 10800000000000,
                  hostBillableCores = CoresInt 4\<rparr>;
        hours = month_hours (Some 0) (Some 10800000000000)
    in length hours = 3
       \<and> row \<in> set (active_records [row] (hours ! 0))
       \<and> row \<in> set (active_records [row] (hours ! 2))
       \<and> row \<in> set (active_records [row] (hours ! 1)))"
proof -
  have hours: "month_hours (Some 0) (Some 10800000000000)
      = [0, 3600000000000, 7200000000000]"
    by (simp add: month_hours_def hours_from.simps hour_ns_def)
  show ?thesis
    using active_hours_contiguous
      [of 0 1 2 "Some 0" "Some 10800000000000"
          "\<lparr>hostName = ''h1'', startTime = 0, endTime = 10800000000000,
            hostBillableCores = CoresInt 4\<rparr>"
          "[\<lparr>hostName = ''h1'', startTime = 0, endTime = 10800000000000,
             hostBillableCores = CoresInt 4\<rparr>]"]
    by (simp add: hours active_records_def hour_ns_def)
qed

subsection \<open>Rounding to a double\<close>

text \<open>
  Integers up to \<open>2 ^ 53\<close> in absolute value are doubles, and rounding maps every
  integer to a double: rounding twice is rounding once.
\<close>

lemma excess_bits_small: "a < 2 ^ 53 \<Longrightarrow> excess_bits a = 0"
  by (simp add: excess_bits.simps [of a])

lemma excess_bits_large: "2 ^ 53 \<le> a \<Longrightarrow> excess_bits a = Suc (excess_bits (a div 2))"
  by (simp add: excess_bits.simps [of a])

lemma excess_bits_shift:
  "2 ^ 52 \<le> m \<Longrightarrow> m < 2 ^ 53 \<Longrightarrow> excess_bits (m * 2 ^ e) = e"
proof (induction e)
  case 0
  then show ?case by (simp add: excess_bits_small)
next
  case (Suc e)
  have "(2::int) ^ 53 \<le> m * 2 ^ Suc e"
  proof -
    have "(2::int) ^ 52 * 2 \<le> m * 2 ^ Suc e"
      using Suc.prems(1) by (intro mult_mono) simp_all
    then show ?thesis by simp
  qed
  then have "excess_bits (m * 2 ^ Suc e) = Suc (excess_bits (m * 2 ^ Suc e div 2))"
    by (rule excess_bits_large)
  also have "m * 2 ^ Suc e div 2 = m * 2 ^ e"
    by simp
  finally show ?case
    using Suc by simp
qed

lemma excess_bits_quotient:
  "0 \<le> a \<Longrightarrow> a div 2 ^ excess_bits a < 2 ^ 53
     \<and> (0 < excess_bits a \<longrightarrow> 2 ^ 52 \<le> a div 2 ^ excess_bits a)"
proof (induction a rule: excess_bits.induct)
  case (1 a)
  show ?case
  proof (cases "a < 2 ^ 53")
    case True
    then show ?thesis by (simp add: excess_bits_small)
  next
    case False
    then have e: "excess_bits a = Suc (excess_bits (a div 2))"
      by (simp add: excess_bits_large)
    have q: "a div 2 ^ excess_bits a = (a div 2) div 2 ^ excess_bits (a div 2)"
      by (simp add: e zdiv_zmult2_eq)
    have ih: "a div 2 div 2 ^ excess_bits (a div 2) < 2 ^ 53
        \<and> (0 < excess_bits (a div 2) \<longrightarrow> 2 ^ 52 \<le> a div 2 div 2 ^ excess_bits (a div 2))"
      using "1.IH" [OF False] "1.prems" by simp
    show ?thesis
    proof (cases "excess_bits (a div 2) = 0")
      case True
      then have "a div 2 ^ excess_bits a = a div 2"
        by (simp add: q)
      moreover have "2 ^ 52 \<le> a div 2"
        using False by simp
      ultimately show ?thesis
        using ih True by simp
    next
      case False
      then show ?thesis
        using ih by (simp add: q)
    qed
  qed
qed

lemma round_double_exact: "\<bar>n\<bar> \<le> 2 ^ 53 \<Longrightarrow> round_double n = n"
proof (cases "\<bar>n\<bar> < 2 ^ 53")
  case True
  then show ?thesis
    by (simp add: round_double_def excess_bits_small Let_def mult_sgn_abs)
next
  case False
  assume "\<bar>n\<bar> \<le> 2 ^ 53"
  with False have a: "\<bar>n\<bar> = 2 ^ 53"
    by simp
  have e: "excess_bits 9007199254740992 = Suc 0"
    using excess_bits_shift [of "2 ^ 52" 1] by simp
  have "round_double n = sgn n * 2 ^ 53"
    by (simp add: round_double_def a e)
  then show ?thesis
    using a mult_sgn_abs [of n] by simp
qed

lemma round_double_shift:
  assumes "2 ^ 52 \<le> m" and "m < 2 ^ 53" and "s = 1 \<or> s = - 1"
  shows "round_double (s * (m * 2 ^ e)) = s * (m * 2 ^ e)"
proof -
  define x where "x = m * 2 ^ e"
  have "0 < m"
    using assms(1) by simp
  then have "0 < x"
    by (simp add: x_def)
  then have a: "\<bar>s * x\<bar> = x" and sg: "sgn (s * x) = s"
    using assms(3) by (auto simp: abs_mult sgn_mult)
  have eb: "excess_bits x = e"
    unfolding x_def using assms(1,2) by (rule excess_bits_shift)
  have d: "x div 2 ^ e = m" and r: "x mod 2 ^ e = 0"
    by (simp_all add: x_def)
  have c: "\<not> (2 * (0::int) > 2 ^ e \<or> (2 * (0::int) = 2 ^ e \<and> odd m))"
    by simp
  have "round_double (s * x) = s * (m * 2 ^ e)"
    by (simp only: round_double_def Let_def a sg eb d r c if_False)
  then show ?thesis
    by (simp add: x_def)
qed

lemma round_double_form:
  assumes "2 ^ 53 \<le> \<bar>n\<bar>"
  shows "\<exists>m e. 2 ^ 52 \<le> m \<and> m < 2 ^ 53 \<and> round_double n = sgn n * (m * 2 ^ e)"
proof -
  define e where "e = excess_bits \<bar>n\<bar>"
  define q where "q = \<bar>n\<bar> div 2 ^ e"
  define r where "r = \<bar>n\<bar> mod 2 ^ e"
  have "0 < e"
    using assms by (simp add: e_def excess_bits_large)
  then have q: "2 ^ 52 \<le> q" "q < 2 ^ 53"
    using excess_bits_quotient [of "\<bar>n\<bar>"] by (simp_all add: q_def e_def)
  define up where "up \<longleftrightarrow> 2 * r > 2 ^ e \<or> (2 * r = 2 ^ e \<and> odd q)"
  have rd: "round_double n = sgn n * ((if up then q + 1 else q) * 2 ^ e)"
    unfolding round_double_def Let_def up_def q_def r_def e_def ..
  show ?thesis
  proof (cases up)
    case False
    then have "round_double n = sgn n * (q * 2 ^ e)"
      using rd by simp
    then show ?thesis
      using q by blast
  next
    case True
    then have round_up: "round_double n = sgn n * ((q + 1) * 2 ^ e)"
      using rd by simp
    show ?thesis
    proof (cases "q + 1 < 2 ^ 53")
      case True
      moreover have "2 ^ 52 \<le> q + 1"
        using q by simp
      ultimately show ?thesis
        using round_up by blast
    next
      case False
      then have "q + 1 = 2 ^ 52 * 2"
        using q by simp
      then have "round_double n = sgn n * (2 ^ 52 * 2 ^ Suc e)"
        using round_up by simp
      moreover have "(2::int) ^ 52 \<le> 2 ^ 52" and "(2::int) ^ 52 < 2 ^ 53"
        by simp_all
      ultimately show ?thesis
        by blast
    qed
  qed
qed

lemma round_double_idem: "round_double (round_double n) = round_double n"
proof (cases "\<bar>n\<bar> < 2 ^ 53")
  case True
  then show ?thesis
    by (simp add: round_double_exact)
next
  case False
  then obtain m e where m: "2 ^ 52 \<le> m" "m < 2 ^ 53"
    and rd: "round_double n = sgn n * (m * 2 ^ e)"
    using round_double_form [of n] by auto
  have "n \<noteq> 0"
    using False by auto
  then have "sgn n = 1 \<or> sgn n = - 1"
    by (auto simp: sgn_if)
  then show ?thesis
    unfolding rd using m by (rule round_double_shift [rotated 2])
qed



lemma float_add_zero:
  assumes "\<bar>round_double c\<bar> < float_limit"
  shows "float_add (FloatVal 0) (FloatVal (round_double c)) = FloatVal (round_double c)"
proof -
  have "\<not> float_limit \<le> round_double c" and "\<not> round_double c \<le> - float_limit"
    using assms by linarith+
  then show ?thesis
    by (simp add: round_double_idem)
qed

lemma float_add_int_zero:
  "float_add_int (FloatVal 0) c = py_float_of_int c"
proof (cases "\<bar>round_double c\<bar> < float_limit")
  case True
  then show ?thesis
    using float_add_zero [OF True]
    by (simp add: float_add_int_def py_float_of_int_def del: float_add.simps)
next
  case False
  then show ?thesis
    by (simp add: float_add_int_def py_float_of_int_def)
qed

lemma py_float_of_int_Inr:
  "py_float_of_int c = Inr v \<Longrightarrow> v = FloatVal (round_double c)"
  by (auto simp: py_float_of_int_def Let_def split: if_splits)

subsection \<open>Dropping duplicates\<close>

lemma drop_duplicates_from_names:
  "hostName ` set (drop_duplicates_from seen rows) = hostName ` set rows - set seen"
  by (induction rows arbitrary: seen) auto

lemma drop_duplicates_from_distinct:
  "distinct (map hostName (drop_duplicates_from seen rows))"
proof (induction rows arbitrary: seen)
  case Nil
  show ?case by simp
next
  case (Cons row rest)
  have "hostName row \<notin> hostName ` set (drop_duplicates_from (hostName row # seen) rest)"
    by (simp add: drop_duplicates_from_names)
  then show ?case
    using Cons by simp
qed

lemma drop_duplicates_from_find:
  "find (\<lambda>row. hostName row = h) (drop_duplicates_from seen rows)
     = (if h \<in> set seen then None else find (\<lambda>row. hostName row = h) rows)"
proof (induction rows arbitrary: seen)
  case Nil
  show ?case by simp
next
  case (Cons row rest)
  show ?case
    by (auto simp: Cons)
qed

lemma drop_duplicates_find:
  "find (\<lambda>row. hostName row = h) (drop_duplicates rows) = find (\<lambda>row. hostName row = h) rows"
  by (simp add: drop_duplicates_def drop_duplicates_from_find)

lemma drop_duplicates_distinct: "distinct (map hostName (drop_duplicates rows))"
  by (simp add: drop_duplicates_def drop_duplicates_from_distinct)

lemma drop_duplicates_names: "hostName ` set (drop_duplicates rows) = hostName ` set rows"
  by (simp add: drop_duplicates_def drop_duplicates_from_names)

subsection \<open>The accumulator\<close>

lemma dict_set_fresh: "k \<notin> fst ` set d \<Longrightarrow> dict_set d k v = d @ [(k, v)]"
  by (induction d) auto

lemma add_cores_fresh:
  assumes "k \<notin> fst ` set d"
  shows "add_cores d k c =
    (case py_float_of_int c of Inl e \<Rightarrow> Inl e | Inr v \<Rightarrow> Inr (d @ [(k, v)]))"
proof -
  have "map_of d k = None"
    using assms by (simp add: map_of_eq_None_iff)
  then show ?thesis
    using assms
    by (simp add: add_cores_def float_add_int_zero dict_set_fresh split: sum.splits)
qed

lemma group_by_hostname_fresh:
  assumes "group_by_hostname d rows = Inr d'"
    and "distinct (map hostName rows)"
    and "hostName ` set rows \<inter> fst ` set d = {}"
  shows "d' = d @ map (\<lambda>row. (hostName row,
                   FloatVal (round_double (projr (py_int (hostBillableCores row)))))) rows
    \<and> (\<forall>row \<in> set rows. \<exists>c. py_int (hostBillableCores row) = Inr c
          \<and> py_float_of_int c = Inr (FloatVal (round_double c)))"
  using assms
proof (induction rows arbitrary: d)
  case Nil
  then show ?case by simp
next
  case (Cons row rest)
  from Cons.prems(1) obtain c where c: "py_int (hostBillableCores row) = Inr c"
    by (auto split: sum.splits)
  have fresh: "hostName row \<notin> fst ` set d"
    using Cons.prems(3) by auto
  from Cons.prems(1) c obtain v where v: "py_float_of_int c = Inr v"
    and rest: "group_by_hostname (d @ [(hostName row, v)]) rest = Inr d'"
    by (auto simp: add_cores_fresh [OF fresh] split: sum.splits)
  have v_eq: "v = FloatVal (round_double c)"
    using v by (rule py_float_of_int_Inr)
  have "hostName ` set rest \<inter> fst ` set (d @ [(hostName row, v)]) = {}"
    using Cons.prems(2,3) by auto
  then have ih: "d' = (d @ [(hostName row, v)]) @ map (\<lambda>row. (hostName row,
                   FloatVal (round_double (projr (py_int (hostBillableCores row)))))) rest
    \<and> (\<forall>row \<in> set rest. \<exists>c. py_int (hostBillableCores row) = Inr c
          \<and> py_float_of_int c = Inr (FloatVal (round_double c)))"
    using Cons.IH [OF rest] Cons.prems(2) by simp
  show ?case
    using ih c v v_eq by simp
qed

subsection \<open>The sum\<close>

lemma float_limit_large: "2 ^ 53 < float_limit"
  by (simp add: float_limit_def)

lemma float_add_exact:
  assumes "\<bar>a + b\<bar> \<le> 2 ^ 53"
  shows "float_add (FloatVal a) (FloatVal b) = FloatVal (a + b)"
proof -
  have "round_double (a + b) = a + b"
    using assms by (rule round_double_exact)
  moreover have "\<not> float_limit \<le> a + b" and "\<not> a + b \<le> - float_limit"
    using assms float_limit_large by linarith+
  ultimately show ?thesis
    by simp
qed

lemma foldl_float_add_exact:
  "\<bar>a\<bar> + (\<Sum>x\<leftarrow>xs. \<bar>x\<bar>) \<le> 2 ^ 53 \<Longrightarrow>
     foldl float_add (FloatVal a) (map FloatVal xs) = FloatVal (a + sum_list xs)"
proof (induction xs arbitrary: a)
  case Nil
  show ?case by simp
next
  case (Cons x xs)
  have nonneg: "0 \<le> (\<Sum>x\<leftarrow>xs. \<bar>x\<bar>)"
    by (rule sum_list_nonneg) auto
  have "\<bar>a + x\<bar> \<le> \<bar>a\<bar> + \<bar>x\<bar>"
    by (rule abs_triangle_ineq)
  then have bound: "\<bar>a + x\<bar> + (\<Sum>x\<leftarrow>xs. \<bar>x\<bar>) \<le> 2 ^ 53"
    using Cons.prems by simp
  then have "\<bar>a + x\<bar> \<le> 2 ^ 53"
    using nonneg by linarith
  then have "float_add (FloatVal a) (FloatVal x) = FloatVal (a + x)"
    by (rule float_add_exact)
  then show ?case
    using Cons.IH [OF bound] by (simp add: add.assoc del: float_add.simps)
qed

subsection \<open>One hour\<close>

lemma hour_entry_Inr:
  assumes "hour_entry df h = Inr res"
  shows "hostnames res = map (\<lambda>row. (hostName row,
             FloatVal (round_double (projr (py_int (hostBillableCores row))))))
           (drop_duplicates (active_records df h))"
    and "\<forall>row \<in> set (drop_duplicates (active_records df h)).
           \<exists>c. py_int (hostBillableCores row) = Inr c
             \<and> py_float_of_int c = Inr (FloatVal (round_double c))"
    and "hour res = timestamp_strftime h \<and> day_of_month res = timestamp_day h
          \<and> hour_of_day res = timestamp_hour h"
    and "total_hostnames res = int (length (hostnames res))"
    and "py_int_of_float (py_sum (map snd (hostnames res))) = Inr (total_hostBillableCores res)"
proof -
  from assms obtain d total_cores
    where d: "group_by_hostname [] (drop_duplicates (active_records df h)) = Inr d"
      and t: "py_int_of_float (py_sum (map snd d)) = Inr total_cores"
      and res: "res = \<lparr>hour = timestamp_strftime h, day_of_month = timestamp_day h,
                  hour_of_day = timestamp_hour h, total_hostnames = int (length d),
                  total_hostBillableCores = total_cores, hostnames = d\<rparr>"
    by (auto simp: hour_entry_def split: sum.splits)
  note fresh = group_by_hostname_fresh [OF d drop_duplicates_distinct]
  show "hostnames res = map (\<lambda>row. (hostName row,
             FloatVal (round_double (projr (py_int (hostBillableCores row))))))
           (drop_duplicates (active_records df h))"
    using fresh by (simp add: res)
  show "\<forall>row \<in> set (drop_duplicates (active_records df h)).
           \<exists>c. py_int (hostBillableCores row) = Inr c
             \<and> py_float_of_int c = Inr (FloatVal (round_double c))"
    using fresh by simp
  show "hour res = timestamp_strftime h \<and> day_of_month res = timestamp_day h
      \<and> hour_of_day res = timestamp_hour h"
    and "total_hostnames res = int (length (hostnames res))"
    by (simp_all add: res)
  show "py_int_of_float (py_sum (map snd (hostnames res))) = Inr (total_hostBillableCores res)"
    using t by (simp add: res)
qed

lemma filter_distinct_find:
  "distinct (map g xs) \<Longrightarrow> find (\<lambda>x. g x = k) xs = Some y \<Longrightarrow> filter (\<lambda>x. g x = k) xs = [y]"
proof (induction xs)
  case Nil
  then show ?case by simp
next
  case (Cons x xs)
  show ?case
  proof (cases "g x = k")
    case True
    then have "x = y"
      using Cons.prems(2) by simp
    moreover have "g x \<notin> g ` set xs"
      using Cons.prems(1) by simp
    then have "\<forall>y \<in> set xs. g y \<noteq> k"
      using True by (metis imageI)
    then have "filter (\<lambda>x. g x = k) xs = []"
      by (simp add: filter_empty_conv)
    ultimately show ?thesis
      using True by simp
  next
    case False
    then show ?thesis
      using Cons by simp
  qed
qed

lemma py_int_truncates:
  assumes "py_int (CoresFloat x) = Inr c"
  shows "\<bar>of_int c\<bar> \<le> \<bar>x\<bar> \<and> \<bar>x\<bar> < \<bar>of_int c\<bar> + 1 \<and> 0 \<le> of_int c * x"
proof (cases "0 \<le> x")
  case True
  then have c: "c = \<lfloor>x\<rfloor>"
    using assms by simp
  have "0 \<le> c"
    using True by (simp add: c)
  moreover have "of_int c \<le> x" and "x < of_int c + 1"
    using of_int_floor_le [of x] floor_correct [of x] by (simp_all add: c)
  ultimately show ?thesis
    using True by (simp add: abs_if)
next
  case False
  then have c: "c = \<lceil>x\<rceil>"
    using assms by simp
  have upper: "x \<le> of_int c" and lower: "of_int c - 1 < x"
    using ceiling_correct [of x] by (simp_all add: c)
  have "c \<le> 0"
    using False by (simp add: c)
  then have neg: "rat_of_int c \<le> 0"
    by simp
  then have "0 \<le> of_int c * x"
    using False by (simp add: mult_nonpos_nonpos)
  moreover have "\<bar>rat_of_int c\<bar> = - of_int c" and "\<bar>x\<bar> = - x"
    using neg False by simp_all
  ultimately show ?thesis
    using upper lower by simp
qed

text \<open>
  Claim C4. When an hour is computed and one or more active rows carry the host name
  \<open>h\<close>, two or more in particular, the hour's result has exactly one entry for \<open>h\<close>. Its
  cores are those of the first such row alone, coerced to an integer and held as a float:
  the cores of the later rows with the same name are not added.
\<close>

theorem duplicates_keep_first:
  assumes "hour_entry df hour_start = Inr res"
    and "find (\<lambda>row. hostName row = h) (active_records df hour_start) = Some first"
  shows "\<exists>c v. py_int (hostBillableCores first) = Inr c
    \<and> py_float_of_int c = Inr v
    \<and> filter (\<lambda>entry. fst entry = h) (hostnames res) = [(h, v)]"
proof -
  let ?rows = "drop_duplicates (active_records df hour_start)"
  have found: "find (\<lambda>row. hostName row = h) ?rows = Some first"
    using assms(2) by (simp add: drop_duplicates_find)
  then have one: "filter (\<lambda>row. hostName row = h) ?rows = [first]"
    using drop_duplicates_distinct by (rule filter_distinct_find [rotated])
  have name: "hostName first = h" and mem: "first \<in> set ?rows"
    using found by (auto simp: find_Some_iff)
  obtain c where c: "py_int (hostBillableCores first) = Inr c"
    and v: "py_float_of_int c = Inr (FloatVal (round_double c))"
    using hour_entry_Inr(2) [OF assms(1)] mem by blast
  have "filter (\<lambda>entry. fst entry = h) (hostnames res)
      = map (\<lambda>row. (hostName row,
             FloatVal (round_double (projr (py_int (hostBillableCores row))))))
          (filter (\<lambda>row. hostName row = h) ?rows)"
    by (simp add: hour_entry_Inr(1) [OF assms(1)] filter_map comp_def)
  then have "filter (\<lambda>entry. fst entry = h) (hostnames res) = [(h, FloatVal (round_double c))]"
    by (simp add: one name c)
  then show ?thesis
    using c v by blast
qed

theorem duplicates_keep_first_witness:
  "(let df = [\<lparr>hostName = ''h1'', startTime = 0, endTime = 7200000000000,
                  hostBillableCores = CoresInt 4\<rparr>,
               \<lparr>hostName = ''h2'', startTime = 1800000000000, endTime = 5400000000000,
                  hostBillableCores = CoresFloat (5 / 2)\<rparr>,
               \<lparr>hostName = ''h1'', startTime = 0, endTime = 3600000000000,
                  hostBillableCores = CoresInt 8\<rparr>];
        res = \<lparr>hour = ''1970-01-01 00:00:00 UTC'', day_of_month = 1, hour_of_day = 0,
                 total_hostnames = 2, total_hostBillableCores = 6,
                 hostnames = [(''h1'', FloatVal 4), (''h2'', FloatVal 2)]\<rparr>
    in hour_entry df 0 = Inr res
       \<and> length (filter (\<lambda>row. hostName row = ''h1'') (active_records df 0)) = 2
       \<and> find (\<lambda>row. hostName row = ''h1'') (active_records df 0)
           = Some \<lparr>hostName = ''h1'', startTime = 0, endTime = 7200000000000,
                   hostBillableCores = CoresInt 4\<rparr>
       \<and> filter (\<lambda>entry. fst entry = ''h1'') (hostnames res) = [(''h1'', FloatVal 4)])"
proof -
  define df where "df = [\<lparr>hostName = ''h1'', startTime = 0, endTime = 7200000000000,
                  hostBillableCores = CoresInt 4\<rparr>,
               \<lparr>hostName = ''h2'', startTime = 1800000000000, endTime = 5400000000000,
                  hostBillableCores = CoresFloat (5 / 2)\<rparr>,
               \<lparr>hostName = ''h1'', startTime = 0, endTime = 3600000000000,
                  hostBillableCores = CoresInt 8\<rparr>]"
  define res where "res = \<lparr>hour = ''1970-01-01 00:00:00 UTC'', day_of_month = 1, hour_of_day = 0,
                 total_hostnames = 2, total_hostBillableCores = 6,
                 hostnames = [(''h1'', FloatVal 4), (''h2'', FloatVal 2)]\<rparr>"
  define first where "first = \<lparr>hostName = ''h1'', startTime = 0, endTime = 7200000000000,
                   hostBillableCores = CoresInt 4\<rparr>"
  have e: "hour_entry df 0 = Inr res"
    unfolding df_def res_def by code_simp
  have f: "find (\<lambda>row. hostName row = ''h1'') (active_records df 0) = Some first"
    unfolding df_def first_def by (simp add: active_records_def hour_ns_def)
  have n: "length (filter (\<lambda>row. hostName row = ''h1'') (active_records df 0)) = 2"
    unfolding df_def by (simp add: active_records_def hour_ns_def)
  have "filter (\<lambda>entry. fst entry = ''h1'') (hostnames res) = [(''h1'', FloatVal 4)]"
    using duplicates_keep_first [OF e f]
    by (auto simp: first_def py_float_of_int_def round_double_exact float_limit_def)
  then show ?thesis
    using e f n unfolding df_def res_def first_def by (simp add: Let_def)
qed

text \<open>
  Claim C6. For every row that contributes to an hour, that is every active row kept
  after the duplicates are dropped, the value accumulated for its host is the float of
  the integer that \<^verbatim>\<open>int(...)\<close> makes of its cores; and for a fractional value that
  integer is the value truncated toward zero: it has the sign of the value, is not
  larger in absolute value, and differs from it by less than one.
\<close>

theorem cores_coerced_to_int:
  assumes "hour_entry df hour_start = Inr res"
    and "row \<in> set (drop_duplicates (active_records df hour_start))"
  shows "\<exists>c v. py_int (hostBillableCores row) = Inr c
    \<and> py_float_of_int c = Inr v
    \<and> (hostName row, v) \<in> set (hostnames res)
    \<and> (\<forall>n. hostBillableCores row = CoresInt n \<longrightarrow> c = n)
    \<and> (\<forall>x. hostBillableCores row = CoresFloat x \<longrightarrow>
          \<bar>of_int c\<bar> \<le> \<bar>x\<bar> \<and> \<bar>x\<bar> < \<bar>of_int c\<bar> + 1 \<and> 0 \<le> of_int c * x)"
proof -
  obtain c where c: "py_int (hostBillableCores row) = Inr c"
    and v: "py_float_of_int c = Inr (FloatVal (round_double c))"
    using hour_entry_Inr(2) [OF assms(1)] assms(2) by blast
  have "(hostName row, FloatVal (round_double (projr (py_int (hostBillableCores row)))))
      \<in> set (hostnames res)"
    unfolding hour_entry_Inr(1) [OF assms(1)] using assms(2) by (simp add: image_iff) blast
  then have "(hostName row, FloatVal (round_double c)) \<in> set (hostnames res)"
    by (simp add: c)
  moreover have "\<forall>n. hostBillableCores row = CoresInt n \<longrightarrow> c = n"
    using c by auto
  moreover have "\<forall>x. hostBillableCores row = CoresFloat x \<longrightarrow>
      \<bar>of_int c\<bar> \<le> \<bar>x\<bar> \<and> \<bar>x\<bar> < \<bar>of_int c\<bar> + 1 \<and> 0 \<le> of_int c * x"
    using c py_int_truncates by metis
  ultimately show ?thesis
    using c v by blast
qed

text \<open>
  The first hour of a frame with an integer cell and a fractional, negative cell: the
  integer \<open>4\<close> is accumulated as it is, and \<open>- 5 / 2\<close> as \<open>- 2\<close>.
\<close>

theorem cores_coerced_to_int_witness:
  "(let int_row = \<lparr>hostName = ''h1'', startTime = 1704069000000000000,
                      endTime = 1704075300000000000, hostBillableCores = CoresInt 4\<rparr>;
        float_row = \<lparr>hostName = ''h2'', startTime = 1704070800000000000,
                        endTime = 1704072600000000000,
                        hostBillableCores = CoresFloat (- 5 / 2)\<rparr>;
        df = [int_row, float_row];
        res = \<lparr>hour = ''2024-01-01 00:00:00 UTC'', day_of_month = 1, hour_of_day = 0,
                 total_hostnames = 2, total_hostBillableCores = 2,
                 hostnames = [(''h1'', FloatVal 4), (''h2'', FloatVal (- 2))]\<rparr>
    in month_hours (month_start df) (month_end df)
         = [1704069000000000000, 1704072600000000000]
       \<and> hour_entry df 1704069000000000000 = Inr res
       \<and> drop_duplicates (active_records df 1704069000000000000) = [int_row, float_row]
       \<and> py_int (CoresInt 4) = Inr 4
       \<and> py_float_of_int 4 = Inr (FloatVal 4)
       \<and> (hostName int_row, FloatVal 4) \<in> set (hostnames res)
       \<and> py_int (CoresFloat (- 5 / 2)) = Inr (- 2)
       \<and> py_float_of_int (- 2) = Inr (FloatVal (- 2))
       \<and> (hostName float_row, FloatVal (- 2)) \<in> set (hostnames res))"
proof -
  define int_row where "int_row = \<lparr>hostName = ''h1'', startTime = 1704069000000000000,
      endTime = 1704075300000000000, hostBillableCores = CoresInt 4\<rparr>"
  define float_row where "float_row = \<lparr>hostName = ''h2'',
      startTime = 1704070800000000000, endTime = 1704072600000000000,
      hostBillableCores = CoresFloat (- 5 / 2)\<rparr>"
  define res where "res = \<lparr>hour = ''2024-01-01 00:00:00 UTC'', day_of_month = 1,
      hour_of_day = 0, total_hostnames = 2, total_hostBillableCores = 2,
      hostnames = [(''h1'', FloatVal 4), (''h2'', FloatVal (- 2))]\<rparr>"
  have hours: "month_hours (month_start [int_row, float_row]) (month_end [int_row, float_row])
      = [1704069000000000000, 1704072600000000000]"
    unfolding int_row_def float_row_def by code_simp
  have e: "hour_entry [int_row, float_row] 1704069000000000000 = Inr res"
    unfolding int_row_def float_row_def res_def by code_simp
  have kept: "drop_duplicates (active_records [int_row, float_row] 1704069000000000000)
      = [int_row, float_row]"
    unfolding int_row_def float_row_def by code_simp
  have i: "py_int (CoresInt 4) = Inr 4" "py_int (CoresFloat (- 5 / 2)) = Inr (- 2)"
    by code_simp+
  have f: "py_float_of_int 4 = Inr (FloatVal 4)" "py_float_of_int (- 2) = Inr (FloatVal (- 2))"
    by (simp_all add: py_float_of_int_def round_double_exact float_limit_def)
  have m: "int_row \<in> set (drop_duplicates (active_records [int_row, float_row]
          1704069000000000000))"
    "float_row \<in> set (drop_duplicates (active_records [int_row, float_row]
          1704069000000000000))"
    by (simp_all add: kept)
  have "(hostName int_row, FloatVal 4) \<in> set (hostnames res)"
    using cores_coerced_to_int [OF e m(1)] f(1) by (auto simp: int_row_def)
  moreover have "(hostName float_row, FloatVal (- 2)) \<in> set (hostnames res)"
    using cores_coerced_to_int [OF e m(2)] i(2) f(2) by (auto simp: float_row_def)
  ultimately show ?thesis
    using hours e kept i f
    unfolding Let_def int_row_def [symmetric] float_row_def [symmetric] res_def [symmetric]
    by simp
qed

lemma abs_le_sum_list_abs: "x \<in> set xs \<Longrightarrow> \<bar>x\<bar> \<le> (\<Sum>x\<leftarrow>xs. \<bar>x :: int\<bar>)"
proof (induction xs)
  case Nil
  then show ?case by simp
next
  case (Cons y ys)
  have "0 \<le> (\<Sum>x\<leftarrow>ys. \<bar>x\<bar>)"
    by (rule sum_list_nonneg) auto
  then show ?case
    using Cons by auto
qed

text \<open>
  Claim C5, as the code has it. For every hour that is computed, the total of billable
  cores is the exact sum of the integer cores of the active rows kept after the
  duplicates are dropped, provided that the absolute values of these integers add up to
  at most \<open>2 ^ 53\<close>, the range in which the float accumulator is exact; and the number
  of host names is the number of distinct host names among these rows, which are the
  distinct host names among all active rows.
\<close>

theorem hour_totals:
  assumes "hour_entry df hour_start = Inr res"
  shows "\<exists>cs. map (\<lambda>row. py_int (hostBillableCores row))
                (drop_duplicates (active_records df hour_start)) = map Inr cs
    \<and> ((\<Sum>c\<leftarrow>cs. \<bar>c\<bar>) \<le> 2 ^ 53 \<longrightarrow> total_hostBillableCores res = sum_list cs)
    \<and> total_hostnames res
        = int (card (hostName ` set (drop_duplicates (active_records df hour_start))))
    \<and> hostName ` set (drop_duplicates (active_records df hour_start))
        = hostName ` set (active_records df hour_start)"
proof -
  let ?rows = "drop_duplicates (active_records df hour_start)"
  define cs where "cs = map (\<lambda>row. projr (py_int (hostBillableCores row))) ?rows"
  have ints: "map (\<lambda>row. py_int (hostBillableCores row)) ?rows = map Inr cs"
    using hour_entry_Inr(2) [OF assms] by (auto simp: cs_def)
  have floats: "map snd (hostnames res) = map FloatVal (map round_double cs)"
    by (simp add: hour_entry_Inr(1) [OF assms] cs_def comp_def)
  have exact: "total_hostBillableCores res = sum_list cs" if "(\<Sum>c\<leftarrow>cs. \<bar>c\<bar>) \<le> 2 ^ 53"
  proof -
    have "\<forall>c \<in> set cs. round_double c = c"
      using that abs_le_sum_list_abs [of _ cs] by (force intro: round_double_exact)
    then have "map round_double cs = cs"
      by (simp add: map_idI)
    then have "py_sum (map snd (hostnames res)) = FloatVal (sum_list cs)"
      using foldl_float_add_exact [of 0 cs] that by (simp add: floats py_sum_def)
    then show ?thesis
      using hour_entry_Inr(5) [OF assms] by simp
  qed
  have "length (hostnames res) = length ?rows"
    by (simp add: hour_entry_Inr(1) [OF assms])
  also have "\<dots> = card (hostName ` set ?rows)"
    using distinct_card [OF drop_duplicates_distinct, of "active_records df hour_start"]
    by simp
  finally have "total_hostnames res = int (card (hostName ` set ?rows))"
    by (simp add: hour_entry_Inr(4) [OF assms])
  then show ?thesis
    using ints exact drop_duplicates_names by blast
qed

theorem hour_totals_witness:
  "(let df = [\<lparr>hostName = ''h1'', startTime = 0, endTime = 7200000000000,
                  hostBillableCores = CoresInt 4\<rparr>,
               \<lparr>hostName = ''h2'', startTime = 1800000000000, endTime = 5400000000000,
                  hostBillableCores = CoresFloat (5 / 2)\<rparr>,
               \<lparr>hostName = ''h1'', startTime = 0, endTime = 3600000000000,
                  hostBillableCores = CoresInt 8\<rparr>];
        res = \<lparr>hour = ''1970-01-01 00:00:00 UTC'', day_of_month = 1, hour_of_day = 0,
                 total_hostnames = 2, total_hostBillableCores = 6,
                 hostnames = [(''h1'', FloatVal 4), (''h2'', FloatVal 2)]\<rparr>
    in hour_entry df 0 = Inr res
       \<and> map (\<lambda>row. py_int (hostBillableCores row)) (drop_duplicates (active_records df 0))
           = map Inr [4, 2]
       \<and> (\<Sum>c\<leftarrow>[4, 2 :: int]. \<bar>c\<bar>) \<le> 2 ^ 53
       \<and> total_hostBillableCores res = sum_list [4, 2]
       \<and> total_hostnames res = int (card (hostName ` set (active_records df 0))))"
proof -
  define df where "df = [\<lparr>hostName = ''h1'', startTime = 0, endTime = 7200000000000,
                  hostBillableCores = CoresInt 4\<rparr>,
               \<lparr>hostName = ''h2'', startTime = 1800000000000, endTime = 5400000000000,
                  hostBillableCores = CoresFloat (5 / 2)\<rparr>,
               \<lparr>hostName = ''h1'', startTime = 0, endTime = 3600000000000,
                  hostBillableCores = CoresInt 8\<rparr>]"
  define res where "res = \<lparr>hour = ''1970-01-01 00:00:00 UTC'', day_of_month = 1, hour_of_day = 0,
                 total_hostnames = 2, total_hostBillableCores = 6,
                 hostnames = [(''h1'', FloatVal 4), (''h2'', FloatVal 2)]\<rparr>"
  have e: "hour_entry df 0 = Inr res"
    unfolding df_def res_def by code_simp
  have i: "map (\<lambda>row. py_int (hostBillableCores row)) (drop_duplicates (active_records df 0))
      = map Inr [4, 2]"
    unfolding df_def by code_simp
  have "total_hostBillableCores res = sum_list [4, 2]
      \<and> total_hostnames res = int (card (hostName ` set (active_records df 0)))"
    using hour_totals [OF e] i by auto
  then show ?thesis
    using e i unfolding df_def res_def by (simp add: Let_def)
qed

text \<open>
  Without the bound the total is not the exact sum: the cores of each host pass through
  a float. A single row with \<open>2 ^ 54 + 1\<close> cores gives the total \<open>2 ^ 54\<close>.
\<close>

theorem hour_totals_exact_counterexample:
  "(let df = [\<lparr>hostName = ''h1'', startTime = 0, endTime = 7200000000000,
                  hostBillableCores = CoresInt 18014398509481985\<rparr>]
    in drop_duplicates (active_records df 0) = df
       \<and> map (\<lambda>row. py_int (hostBillableCores row)) df = [Inr 18014398509481985]
       \<and> hour_entry df 0
           = Inr \<lparr>hour = ''1970-01-01 00:00:00 UTC'', day_of_month = 1, hour_of_day = 0,
                  total_hostnames = 1,
                  total_hostBillableCores = 18014398509481984,
                  hostnames = [(''h1'', FloatVal 18014398509481984)]\<rparr>
       \<and> (18014398509481984 :: int) \<noteq> sum_list [18014398509481985])"
  unfolding Let_def by code_simp


subsection \<open>The detailed report\<close>

lemma analyze_hours_Inr:
  "analyze_hours df hs = Inr results \<Longrightarrow>
     list_all2 (\<lambda>h res. hour_entry df h = Inr res) hs results"
proof (induction hs arbitrary: results)
  case Nil
  then show ?case by simp
next
  case (Cons h hs)
  from Cons.prems obtain res rest where "hour_entry df h = Inr res"
    and "analyze_hours df hs = Inr rest" and "results = res # rest"
    by (auto split: sum.splits)
  then show ?case
    using Cons.IH by simp
qed

lemma hours_from_distinct: "distinct (hours_from s e)"
proof -
  have "inj_on (\<lambda>k. s + int k * hour_ns) A" for A
    using hour_ns_pos by (simp add: inj_on_def)
  then show ?thesis
    by (simp add: hours_from_eq distinct_map)
qed

lemma month_hours_distinct: "distinct (month_hours m_start m_end)"
  by (simp add: month_hours_def hours_from_distinct split: option.splits)

lemma timestamp_hour_range: "0 \<le> timestamp_hour t \<and> timestamp_hour t < 24"
  by (simp add: timestamp_hour_def)

lemma hour_rows:
  assumes "hour_entry df h = Inr res"
  shows "list_all2
     (\<lambda>active row. \<exists>c v. py_int (hostBillableCores active) = Inr c
          \<and> py_float_of_int c = Inr (FloatVal v)
          \<and> row = \<lparr>detailed_hour = timestamp_strftime h,
                    detailed_day_of_month = timestamp_day h,
                    detailed_hour_of_day = timestamp_hour h,
                    detailed_hostname = hostName active,
                    detailed_hostBillableCores = PyFloat (FloatVal v)\<rparr>)
     (drop_duplicates (active_records df h))
     (map (\<lambda>hostname_data.
             \<lparr>detailed_hour = hour res,
              detailed_day_of_month = day_of_month res,
              detailed_hour_of_day = hour_of_day res,
              detailed_hostname = fst hostname_data,
              detailed_hostBillableCores = PyFloat (snd hostname_data)\<rparr>)
          (hostnames res))"
proof -
  have "\<exists>c v. py_int (hostBillableCores active) = Inr c
      \<and> py_float_of_int c = Inr (FloatVal v)
      \<and> round_double (projr (py_int (hostBillableCores active))) = v"
    if "active \<in> set (drop_duplicates (active_records df h))" for active
    using hour_entry_Inr(2) [OF assms] that by fastforce
  then show ?thesis
    unfolding hour_entry_Inr(1) [OF assms]
    by (simp add: hour_entry_Inr(3) [OF assms] list_all2_map2 list_all2_same)
qed

lemma detailed_rows:
  "list_all2 (\<lambda>h res. hour_entry df h = Inr res) hs results \<Longrightarrow>
   list_all2
     (\<lambda>(h, active) row. \<exists>c v. py_int (hostBillableCores active) = Inr c
          \<and> py_float_of_int c = Inr (FloatVal v)
          \<and> row = \<lparr>detailed_hour = timestamp_strftime h,
                    detailed_day_of_month = timestamp_day h,
                    detailed_hour_of_day = timestamp_hour h,
                    detailed_hostname = hostName active,
                    detailed_hostBillableCores = PyFloat (FloatVal v)\<rparr>)
     (concat (map (\<lambda>h. map (Pair h) (drop_duplicates (active_records df h))) hs))
     (save_detailed_csv results)"
proof (induction rule: list_all2_induct)
  case Nil
  show ?case by (simp add: save_detailed_csv_def)
next
  case (Cons h hs res results)
  have "save_detailed_csv (res # results)
      = map (\<lambda>hostname_data.
             \<lparr>detailed_hour = hour res,
              detailed_day_of_month = day_of_month res,
              detailed_hour_of_day = hour_of_day res,
              detailed_hostname = fst hostname_data,
              detailed_hostBillableCores = PyFloat (snd hostname_data)\<rparr>)
          (hostnames res) @ save_detailed_csv results"
    by (simp add: save_detailed_csv_def)
  then show ?case
    using hour_rows [OF Cons.hyps(1)] Cons.IH
    by (simp add: list_all2_appendI list_all2_map1)
qed

text \<open>
  Claim C8, as the code has it. When a frame was read and the run returns its results,
  the detailed file holds, hour by hour of the window and in the order of the frame, one
  row for each active row kept after the duplicates are dropped, hence one row for each
  pair of an hour and a host name active in it, no pair twice. The row carries the hour
  as the text \<^verbatim>\<open>YYYY-MM-DD HH:00:00 UTC\<close>, its day of the month and its hour
  of the day (from 0 to 23), the host name, and as cores the float that the integer
  \<^verbatim>\<open>int(...)\<close> of the kept row's cores becomes in the accumulator: a float of
  integral value, not an int.
\<close>

theorem detailed_rows_are_floats:
  assumes "read_dataset read_csv = Some df"
    and "returned (analyze_vm_activity read_csv) = Inr results"
  shows "written (analyze_vm_activity read_csv)
        = [DetailedCsv (save_detailed_csv results), SummaryCsv (save_summary_csv results)]
    \<and> list_all2
        (\<lambda>(h, active) row. \<exists>c v. py_int (hostBillableCores active) = Inr c
             \<and> py_float_of_int c = Inr (FloatVal v)
             \<and> row = \<lparr>detailed_hour = timestamp_strftime h,
                       detailed_day_of_month = timestamp_day h,
                       detailed_hour_of_day = timestamp_hour h,
                       detailed_hostname = hostName active,
                       detailed_hostBillableCores = PyFloat (FloatVal v)\<rparr>)
        (concat (map (\<lambda>h. map (Pair h) (drop_duplicates (active_records df h)))
                     (month_hours (month_start df) (month_end df))))
        (save_detailed_csv results)
    \<and> distinct (month_hours (month_start df) (month_end df))
    \<and> (\<forall>h. distinct (map hostName (drop_duplicates (active_records df h)))
          \<and> hostName ` set (drop_duplicates (active_records df h))
              = hostName ` set (active_records df h)
          \<and> 0 \<le> timestamp_hour h \<and> timestamp_hour h < 24)"
proof -
  let ?hours = "month_hours (month_start df) (month_end df)"
  have run: "analyze_hours df ?hours = Inr results"
    and files: "written (analyze_vm_activity read_csv)
        = [DetailedCsv (save_detailed_csv results), SummaryCsv (save_summary_csv results)]"
    using assms by (auto simp: analyze_vm_activity_def Let_def split: sum.splits)
  note rows = detailed_rows [OF analyze_hours_Inr [OF run]]
  show ?thesis
    using files rows month_hours_distinct [of "month_start df" "month_end df"]
      drop_duplicates_distinct drop_duplicates_names timestamp_hour_range
    by blast
qed

text \<open>
  A frame of two rows around the end of February 2024: host h1 from 22:30 on the 29th to
  01:15 on the first of March, with \<open>9 / 2\<close> cores, and host h2 from 23:00 to 23:30 on
  the 29th, with \<open>2\<close> cores. The hours start at 22:30, 23:30 and 00:30, and the four
  detailed rows are those of h1 and h2 in the first hour and of h1 in the other two.
\<close>

theorem detailed_rows_are_floats_witness:
  "(let h1 = \<lparr>hostName = ''h1'', startTime = 1709245800000000000,
                 endTime = 1709255700000000000, hostBillableCores = CoresFloat (9 / 2)\<rparr>;
        h2 = \<lparr>hostName = ''h2'', startTime = 1709247600000000000,
                 endTime = 1709249400000000000, hostBillableCores = CoresInt 2\<rparr>;
        df = [h1, h2];
        read_csv = (\<lambda>sep. if sep = Tab then Some df else None);
        rows = [\<lparr>detailed_hour = ''2024-02-29 22:00:00 UTC'', detailed_day_of_month = 29,
                  detailed_hour_of_day = 22, detailed_hostname = ''h1'',
                  detailed_hostBillableCores = PyFloat (FloatVal 4)\<rparr>,
                \<lparr>detailed_hour = ''2024-02-29 22:00:00 UTC'', detailed_day_of_month = 29,
                  detailed_hour_of_day = 22, detailed_hostname = ''h2'',
                  detailed_hostBillableCores = PyFloat (FloatVal 2)\<rparr>,
                \<lparr>detailed_hour = ''2024-02-29 23:00:00 UTC'', detailed_day_of_month = 29,
                  detailed_hour_of_day = 23, detailed_hostname = ''h1'',
                  detailed_hostBillableCores = PyFloat (FloatVal 4)\<rparr>,
                \<lparr>detailed_hour = ''2024-03-01 00:00:00 UTC'', detailed_day_of_month = 1,
                  detailed_hour_of_day = 0, detailed_hostname = ''h1'',
                  detailed_hostBillableCores = PyFloat (FloatVal 4)\<rparr>]
    in read_dataset read_csv = Some df
       \<and> (\<exists>results. returned (analyze_vm_activity read_csv) = Inr results
             \<and> save_detailed_csv results = rows)
       \<and> concat (map (\<lambda>h. map (Pair h) (drop_duplicates (active_records df h)))
                     (month_hours (month_start df) (month_end df)))
           = [(1709245800000000000, h1), (1709245800000000000, h2),
              (1709249400000000000, h1), (1709253000000000000, h1)]
       \<and> list_all2
           (\<lambda>(h, active) row. \<exists>c v. py_int (hostBillableCores active) = Inr c
                \<and> py_float_of_int c = Inr (FloatVal v)
                \<and> row = \<lparr>detailed_hour = timestamp_strftime h,
                          detailed_day_of_month = timestamp_day h,
                          detailed_hour_of_day = timestamp_hour h,
                          detailed_hostname = hostName active,
                          detailed_hostBillableCores = PyFloat (FloatVal v)\<rparr>)
           [(1709245800000000000, h1), (1709245800000000000, h2),
              (1709249400000000000, h1), (1709253000000000000, h1)]
           rows)"
proof -
  define h1 where "h1 = \<lparr>hostName = ''h1'', startTime = 1709245800000000000,
      endTime = 1709255700000000000, hostBillableCores = CoresFloat (9 / 2)\<rparr>"
  define h2 where "h2 = \<lparr>hostName = ''h2'', startTime = 1709247600000000000,
      endTime = 1709249400000000000, hostBillableCores = CoresInt 2\<rparr>"
  define read_csv where "read_csv = (\<lambda>sep. if sep = Tab then Some [h1, h2] else None)"
  define results where "results =
     [\<lparr>hour = ''2024-02-29 22:00:00 UTC'', day_of_month = 29, hour_of_day = 22,
        total_hostnames = 2, total_hostBillableCores = 6,
        hostnames = [(''h1'', FloatVal 4), (''h2'', FloatVal 2)]\<rparr>,
      \<lparr>hour = ''2024-02-29 23:00:00 UTC'', day_of_month = 29, hour_of_day = 23,
        total_hostnames = 1, total_hostBillableCores = 4,
        hostnames = [(''h1'', FloatVal 4)]\<rparr>,
      \<lparr>hour = ''2024-03-01 00:00:00 UTC'', day_of_month = 1, hour_of_day = 0,
        total_hostnames = 1, total_hostBillableCores = 4,
        hostnames = [(''h1'', FloatVal 4)]\<rparr>]"
  have r: "read_dataset read_csv = Some [h1, h2]"
    by (simp add: read_dataset_def read_csv_def)
  have e: "returned (analyze_vm_activity read_csv) = Inr results"
    unfolding read_csv_def h1_def h2_def results_def by code_simp
  have s: "save_detailed_csv results =
      [\<lparr>detailed_hour = ''2024-02-29 22:00:00 UTC'', detailed_day_of_month = 29,
         detailed_hour_of_day = 22, detailed_hostname = ''h1'',
         detailed_hostBillableCores = PyFloat (FloatVal 4)\<rparr>,
       \<lparr>detailed_hour = ''2024-02-29 22:00:00 UTC'', detailed_day_of_month = 29,
         detailed_hour_of_day = 22, detailed_hostname = ''h2'',
         detailed_hostBillableCores = PyFloat (FloatVal 2)\<rparr>,
       \<lparr>detailed_hour = ''2024-02-29 23:00:00 UTC'', detailed_day_of_month = 29,
         detailed_hour_of_day = 23, detailed_hostname = ''h1'',
         detailed_hostBillableCores = PyFloat (FloatVal 4)\<rparr>,
       \<lparr>detailed_hour = ''2024-03-01 00:00:00 UTC'', detailed_day_of_month = 1,
         detailed_hour_of_day = 0, detailed_hostname = ''h1'',
         detailed_hostBillableCores = PyFloat (FloatVal 4)\<rparr>]"
    by (simp add: save_detailed_csv_def results_def)
  have p: "concat (map (\<lambda>h. map (Pair h) (drop_duplicates (active_records [h1, h2] h)))
                     (month_hours (month_start [h1, h2]) (month_end [h1, h2])))
      = [(1709245800000000000, h1), (1709245800000000000, h2),
              (1709249400000000000, h1), (1709253000000000000, h1)]"
    unfolding h1_def h2_def by code_simp
  have "list_all2
       (\<lambda>(h, active) row. \<exists>c v. py_int (hostBillableCores active) = Inr c
                \<and> py_float_of_int c = Inr (FloatVal v)
                \<and> row = \<lparr>detailed_hour = timestamp_strftime h,
                          detailed_day_of_month = timestamp_day h,
                          detailed_hour_of_day = timestamp_hour h,
                          detailed_hostname = hostName active,
                          detailed_hostBillableCores = PyFloat (FloatVal v)\<rparr>)
       [(1709245800000000000, h1), (1709245800000000000, h2),
              (1709249400000000000, h1), (1709253000000000000, h1)]
       (save_detailed_csv results)"
    using detailed_rows_are_floats [OF r e] unfolding p by blast
  then show ?thesis
    using r e s p
    unfolding Let_def h1_def [symmetric] h2_def [symmetric] read_csv_def [symmetric]
    by (simp del: list_all2_Cons)
qed

text \<open>
  The claim as stated, with the cores of a detailed row an int, fails on the two rows
  of the specification's scenario: the detailed rows carry the floats \<open>4.0\<close> and \<open>2.0\<close>, while the totals of
  the summary rows are ints.
\<close>

theorem detailed_rows_int_counterexample:
  "(let df = [\<lparr>hostName = ''h1'', startTime = 1704069000000000000,
                  endTime = 1704075300000000000, hostBillableCores = CoresInt 4\<rparr>,
               \<lparr>hostName = ''h2'', startTime = 1704070800000000000,
                  endTime = 1704072600000000000, hostBillableCores = CoresInt 2\<rparr>]
    in written (analyze_vm_activity (\<lambda>sep. if sep = Tab then Some df else None))
         = [DetailedCsv
              [\<lparr>detailed_hour = ''2024-01-01 00:00:00 UTC'', detailed_day_of_month = 1,
                 detailed_hour_of_day = 0, detailed_hostname = ''h1'',
                 detailed_hostBillableCores = PyFloat (FloatVal 4)\<rparr>,
               \<lparr>detailed_hour = ''2024-01-01 00:00:00 UTC'', detailed_day_of_month = 1,
                 detailed_hour_of_day = 0, detailed_hostname = ''h2'',
                 detailed_hostBillableCores = PyFloat (FloatVal 2)\<rparr>,
               \<lparr>detailed_hour = ''2024-01-01 01:00:00 UTC'', detailed_day_of_month = 1,
                 detailed_hour_of_day = 1, detailed_hostname = ''h1'',
                 detailed_hostBillableCores = PyFloat (FloatVal 4)\<rparr>],
            SummaryCsv
              [\<lparr>summary_hour = ''2024-01-01 00:00:00 UTC'', summary_day_of_month = 1,
                 summary_hour_of_day = 0, total_hosts = PyInt 2,
                 summary_total_hostBillableCores = PyInt 6\<rparr>,
               \<lparr>summary_hour = ''2024-01-01 01:00:00 UTC'', summary_day_of_month = 1,
                 summary_hour_of_day = 1, total_hosts = PyInt 1,
                 summary_total_hostBillableCores = PyInt 4\<rparr>]])
   \<and> \<not> (\<exists>n. PyFloat (FloatVal 4) = PyInt n)"
proof -
  have "\<not> (\<exists>n. PyFloat (FloatVal 4) = PyInt n)"
    by simp
  moreover have "written (analyze_vm_activity (\<lambda>sep. if sep = Tab then Some
       [\<lparr>hostName = ''h1'', startTime = 1704069000000000000,
                  endTime = 1704075300000000000, hostBillableCores = CoresInt 4\<rparr>,
               \<lparr>hostName = ''h2'', startTime = 1704070800000000000,
                  endTime = 1704072600000000000, hostBillableCores = CoresInt 2\<rparr>] else None))
         = [DetailedCsv
              [\<lparr>detailed_hour = ''2024-01-01 00:00:00 UTC'', detailed_day_of_month = 1,
                 detailed_hour_of_day = 0, detailed_hostname = ''h1'',
                 detailed_hostBillableCores = PyFloat (FloatVal 4)\<rparr>,
               \<lparr>detailed_hour = ''2024-01-01 00:00:00 UTC'', detailed_day_of_month = 1,
                 detailed_hour_of_day = 0, detailed_hostname = ''h2'',
                 detailed_hostBillableCores = PyFloat (FloatVal 2)\<rparr>,
               \<lparr>detailed_hour = ''2024-01-01 01:00:00 UTC'', detailed_day_of_month = 1,
                 detailed_hour_of_day = 1, detailed_hostname = ''h1'',
                 detailed_hostBillableCores = PyFloat (FloatVal 4)\<rparr>],
            SummaryCsv
              [\<lparr>summary_hour = ''2024-01-01 00:00:00 UTC'', summary_day_of_month = 1,
                 summary_hour_of_day = 0, total_hosts = PyInt 2,
                 summary_total_hostBillableCores = PyInt 6\<rparr>,
               \<lparr>summary_hour = ''2024-01-01 01:00:00 UTC'', summary_day_of_month = 1,
                 summary_hour_of_day = 1, total_hosts = PyInt 1,
                 summary_total_hostBillableCores = PyInt 4\<rparr>]]"
    by code_simp
  ultimately show ?thesis
    by (simp only: Let_def simp_thms)
qed


subsection \<open>Failing and empty input\<close>

text \<open>
  Claim C9. When reading the input fails with the tab, then with the space, then with the
  comma as separator, the run ends there: the error is printed for the operator, nothing
  is analysed, no file is written, and the call returns the empty list.
\<close>

theorem load_error_aborts:
  assumes "read_csv Tab = None" and "read_csv Space = None" and "read_csv Comma = None"
  shows "analyze_vm_activity read_csv =
           \<lparr>returned = Inr [], printed = [ErrorReadingFile], written = []\<rparr>"
  using assms by (simp add: analyze_vm_activity_def read_dataset_def)


theorem load_error_aborts_witness:
  "analyze_vm_activity (\<lambda>sep. None) =
     \<lparr>returned = Inr [], printed = [ErrorReadingFile], written = []\<rparr>"
  using load_error_aborts [of "\<lambda>sep. None"] by simp

text \<open>
  Claim C7. When the frame read has no rows, the run does not fail: it returns the empty
  list of results, and the detailed and the summary file are written with no rows.
\<close>

theorem empty_input:
  assumes "read_dataset read_csv = Some []"
  shows "analyze_vm_activity read_csv =
           \<lparr>returned = Inr [],
            printed = [LoadedRecords 0, FoundRecords 0, AnalyzingHours 0, AnalysisComplete,
                       DetailedSaved, SummarySaved],
            written = [DetailedCsv [], SummaryCsv []]\<rparr>"
  using assms
  by (simp add: analyze_vm_activity_def month_start_def month_end_def series_min_def
      series_max_def month_hours_def save_detailed_csv_def save_summary_csv_def)


theorem empty_input_witness:
  "read_dataset (\<lambda>sep. if sep = Space then Some [] else None) = Some []
   \<and> returned (analyze_vm_activity (\<lambda>sep. if sep = Space then Some [] else None)) = Inr []
   \<and> written (analyze_vm_activity (\<lambda>sep. if sep = Space then Some [] else None))
       = [DetailedCsv [], SummaryCsv []]"
proof -
  have r: "read_dataset (\<lambda>sep. if sep = Space then Some [] else None) = Some []"
    by (simp add: read_dataset_def)
  show ?thesis
    using r empty_input [OF r] by simp
qed

end
